theory Spec2Isabelle
  imports Complex_Main
begin

section \<open>The prioritized replay buffer of \<^verbatim>\<open>src/utils.py\<close>\<close>

text \<open>
  The class \<^verbatim>\<open>PrioritizedReplayBuffer\<close> (lines 172 to 228 of \<^verbatim>\<open>utils.py\<close>) is
  embedded with explicit state passing. Every method takes the object as a record and
  returns the object as the call leaves it, together with the exception it raised, if
  any: a Python exception does not undo the assignments made before it.

  Python floats are modelled by \<^typ>\<open>real\<close>: rounding, overflow and the IEEE values
  \<^verbatim>\<open>inf\<close> and \<^verbatim>\<open>nan\<close> are not represented as numbers. Where numpy would produce
  a non-finite number the model says so explicitly (\<open>None\<close> in \<open>np_power\<close>), and the
  caller turns it into the exception that the program raises next.
\<close>

subsection \<open>Data\<close>

text \<open>A transition is the 5-tuple \<^verbatim>\<open>(state, action, reward, next_state, done)\<close>.\<close>

type_synonym ('s, 'a) transition = "'s \<times> 'a \<times> real \<times> 's \<times> bool"

datatype error = IndexError | ValueError | ZeroDivisionError

text \<open>
  The fields set by \<^verbatim>\<open>__init__\<close>. \<open>buffer\<close> is the Python list of committed
  transitions; an entry is \<open>None\<close> only between \<^verbatim>\<open>append(None)\<close> and the assignment
  that follows it. \<open>priorities\<close> is the numpy array of length \<open>capacity\<close>.
  \<open>n_step_buffer\<close> is the \<^verbatim>\<open>deque(maxlen=3)\<close>, oldest entry first.
\<close>

record ('s, 'a) store =
  capacity :: nat
  alpha :: real
  beta :: real
  beta_increment :: real
  buffer :: "('s, 'a) transition option list"
  priorities :: "real list"
  pos :: nat
  max_priority :: real
  n_step_buffer :: "('s, 'a) transition list"

text \<open>\<^verbatim>\<open>__init__(self, capacity, alpha=0.6, beta=0.4, beta_increment=0.001)\<close>\<close>

definition PrioritizedReplayBuffer ::
  "nat \<Rightarrow> real \<Rightarrow> real \<Rightarrow> real \<Rightarrow> ('s, 'a) store" where
  "PrioritizedReplayBuffer cap a b bi =
     \<lparr> capacity = cap, alpha = a, beta = b, beta_increment = bi,
       buffer = [], priorities = replicate cap 0, pos = 0,
       max_priority = 1, n_step_buffer = [] \<rparr>"

text \<open>\<^verbatim>\<open>__len__\<close>: the number of occupied slots.\<close>

definition len :: "('s, 'a) store \<Rightarrow> nat" where
  "len s = length (buffer s)"

subsection \<open>\<^verbatim>\<open>add\<close>\<close>

text \<open>
  \<^verbatim>\<open>deque.append\<close> on a deque of bounded length: the element is appended on the right
  and, when the length then exceeds \<open>maxlen\<close>, the leftmost element is dropped.
\<close>

definition deque_append :: "nat \<Rightarrow> 'x list \<Rightarrow> 'x \<Rightarrow> 'x list" where
  "deque_append maxlen w e =
     (let w' = w @ [e] in if maxlen < length w' then tl w' else w')"

definition reward_of :: "('s, 'a) transition \<Rightarrow> real" where
  "reward_of t = (case t of (_, _, r, _, _) \<Rightarrow> r)"

text \<open>
  The loop \<^verbatim>\<open>for i in range(1, n_step-1): reward = n_step_buffer[i][2] + gamma * reward\<close>.
  It runs only when \<^verbatim>\<open>len(n_step_buffer) == n_step\<close>, so every index it reads exists.
\<close>

definition n_step_reward :: "('s, 'a) transition list \<Rightarrow> nat \<Rightarrow> real \<Rightarrow> real \<Rightarrow> real" where
  "n_step_reward w n gamma seed =
     fold (\<lambda>i reward. reward_of (w ! i) + gamma * reward) [1 ..< n - 1] seed"

text \<open>
  \<^verbatim>\<open>add(self, experience, n_step=3, gamma=0.99)\<close>. The three subscript assignments and
  the modulus can raise; each is a branch, in the order of the source.
\<close>

definition add ::
  "('s, 'a) store \<Rightarrow> ('s, 'a) transition \<Rightarrow> int \<Rightarrow> real \<Rightarrow> ('s, 'a) store \<times> error option" where
  "add s experience n_step gamma =
     (let s1 = s\<lparr>n_step_buffer := deque_append 3 (n_step_buffer s) experience\<rparr>;
          w = n_step_buffer s1
      in if int (length w) \<noteq> n_step then (s1, None)
         else
           (case (hd w, last w) of
              ((state, action, _, _, _), (_, _, reward0, next_state, done)) \<Rightarrow>
                let reward = n_step_reward w (nat n_step) gamma reward0;
                    s2 = (if length (buffer s1) < capacity s1
                          then s1\<lparr>buffer := buffer s1 @ [None]\<rparr> else s1)
                in if length (buffer s2) \<le> pos s2 then (s2, Some IndexError)
                   else
                     let s3 = s2\<lparr>buffer :=
                                (buffer s2)[pos s2 := Some (state, action, reward, next_state, done)]\<rparr>
                     in if length (priorities s3) \<le> pos s3 then (s3, Some IndexError)
                        else
                          let s4 = s3\<lparr>priorities := (priorities s3)[pos s3 := max_priority s3]\<rparr>
                          in if capacity s4 = 0 then (s4, Some ZeroDivisionError)
                             else (s4\<lparr>pos := (pos s4 + 1) mod capacity s4\<rparr>, None)))"

text \<open>Successive \<^verbatim>\<open>add\<close> calls with the same arguments; an exception ends the run.\<close>

fun add_all ::
  "('s, 'a) store \<Rightarrow> ('s, 'a) transition list \<Rightarrow> int \<Rightarrow> real \<Rightarrow> ('s, 'a) store \<times> error option" where
  "add_all s [] n_step gamma = (s, None)"
| "add_all s (e # es) n_step gamma =
     (case add s e n_step gamma of
        (s', None) \<Rightarrow> add_all s' es n_step gamma
      | (s', Some err) \<Rightarrow> (s', Some err))"

subsection \<open>\<^verbatim>\<open>update_priorities\<close>\<close>

text \<open>
  \<^verbatim>\<open>for idx, priority in zip(indices, priorities)\<close>. The subscript
  \<^verbatim>\<open>self.priorities[idx]\<close> is numpy indexing: an index from \<open>-n\<close> to \<open>n - 1\<close> is
  accepted for an array of length \<open>n\<close>, a negative one counting from the end, and any
  other index raises \<^verbatim>\<open>IndexError\<close>. The pairs before the failing one stay applied.
\<close>

fun update_loop ::
  "('s, 'a) store \<Rightarrow> (int \<times> real) list \<Rightarrow> ('s, 'a) store \<times> error option" where
  "update_loop s [] = (s, None)"
| "update_loop s ((idx, priority) # rest) =
     (let n = int (length (priorities s))
      in if idx < - n \<or> n \<le> idx then (s, Some IndexError)
         else
           let k = nat (if idx < 0 then idx + n else idx)
           in update_loop
                (s\<lparr>priorities := (priorities s)[k := priority],
                   max_priority := max (max_priority s) priority\<rparr>) rest)"

definition update_priorities ::
  "('s, 'a) store \<Rightarrow> int list \<Rightarrow> real list \<Rightarrow> ('s, 'a) store \<times> error option" where
  "update_priorities s indices prios = update_loop s (zip indices prios)"

subsection \<open>\<^verbatim>\<open>sample\<close>\<close>

text \<open>
  numpy's \<^verbatim>\<open>x ** a\<close> on floats, for finite \<open>x\<close> and \<open>a\<close>: \<open>None\<close> stands for a result
  that is not a finite number (\<^verbatim>\<open>inf\<close> for zero to a negative power, \<^verbatim>\<open>nan\<close> for a
  negative base with a fractional exponent).
\<close>

definition np_power :: "real \<Rightarrow> real \<Rightarrow> real option" where
  "np_power x a =
     (if a = 0 then Some 1
      else if 0 < x then Some (x powr a)
      else if x = 0 then (if 0 < a then Some 0 else None)
      else if a = of_int \<lfloor>a\<rfloor>
           then Some (if even \<lfloor>a\<rfloor> then (- x) powr a else - ((- x) powr a))
           else None)"

text \<open>
  \<^verbatim>\<open>probs = priorities ** self.alpha; probs /= probs.sum()\<close> followed by the checks
  that \<^verbatim>\<open>np.random.choice\<close> makes on \<open>p\<close>: a vector with a non-finite entry (some power
  is not finite, or the sum is zero) or with a negative entry makes it raise
  \<^verbatim>\<open>ValueError\<close>. \<open>None\<close> is that exception. Powers and sum are exact here. In
  floating point a positive power can underflow to zero and the sum can overflow, so
  the program raises on some inputs on which this function returns a vector; what is
  proved about \<^verbatim>\<open>sample\<close> is therefore stated for the calls that return.
\<close>

definition sample_probs :: "real list \<Rightarrow> real \<Rightarrow> real list option" where
  "sample_probs prios a =
     (let powered = map (\<lambda>p. np_power p a) prios
      in if None \<in> set powered then None
         else
           let raw = map the powered; total = sum_list raw
           in if total = 0 then None
              else
                let probs = map (\<lambda>x. x / total) raw
                in if (\<exists>q \<in> set probs. q < 0) then None else Some probs)"

text \<open>
  What \<^verbatim>\<open>np.random.choice(n, k, p=probs)\<close> can return for a vector \<open>probs\<close> it accepts:
  \<open>k\<close> indices below \<open>n\<close>, each of positive probability.
\<close>

definition choice_result :: "nat \<Rightarrow> nat \<Rightarrow> real list \<Rightarrow> nat list \<Rightarrow> bool" where
  "choice_result n k probs indices \<longleftrightarrow>
     length indices = k \<and> (\<forall>i \<in> set indices. i < n \<and> 0 < probs ! i)"

text \<open>
  \<^verbatim>\<open>sample(self, batch_size)\<close>. The random generator is the parameter \<open>choice\<close>,
  which stands for \<^verbatim>\<open>np.random.choice\<close>. The program can only see results that
  satisfy \<open>choice_result\<close>; the model gives the others the value \<open>Inl None\<close>, which is
  no behaviour of the program. A drawn index has positive probability, so the base of
  \<^verbatim>\<open>(len(self.buffer) * probs[indices]) ** (-self.beta)\<close> is positive and the power is
  \<open>powr\<close>. \<^verbatim>\<open>weights.max()\<close> raises \<^verbatim>\<open>ValueError\<close> on an empty array. The returned
  weights are the contents of the \<^verbatim>\<open>FloatTensor\<close>.
\<close>

definition sample ::
  "('s, 'a) store \<Rightarrow> (nat \<Rightarrow> nat \<Rightarrow> real list \<Rightarrow> nat list) \<Rightarrow> nat \<Rightarrow>
     ('s, 'a) store \<times> (error option + ('s, 'a) transition option list \<times> nat list \<times> real list)" where
  "sample s choice batch_size =
     (if length (buffer s) = 0 then (s, Inr ([], [], []))
      else
        let n = length (buffer s)
        in case sample_probs (take n (priorities s)) (alpha s) of
             None \<Rightarrow> (s, Inl (Some ValueError))
           | Some probs \<Rightarrow>
               let indices = choice n batch_size probs
               in if \<not> choice_result n batch_size probs indices then (s, Inl None)
                  else
                    let samples = map (\<lambda>i. buffer s ! i) indices;
                        weights = map (\<lambda>i. (real n * probs ! i) powr (- beta s)) indices
                    in if weights = [] then (s, Inl (Some ValueError))
                       else
                         let m = Max (set weights);
                             weights' = map (\<lambda>w. w / m) weights
                         in (s\<lparr>beta := min 1 (beta s + beta_increment s)\<rparr>,
                             Inr (samples, indices, weights')))"

subsection \<open>The class invariant and sequences of calls\<close>

text \<open>
  What holds of every object built by \<^verbatim>\<open>__init__\<close> with a capacity of at least one and
  then used through its methods only: the priority array has \<open>capacity\<close> entries, the
  list never outgrows it, the cursor is a slot, it is the first free slot until the
  list is full, and the deque holds at most three entries.
\<close>

definition store_ok :: "('s, 'a) store \<Rightarrow> bool" where
  "store_ok s \<longleftrightarrow>
     0 < capacity s \<and> length (priorities s) = capacity s \<and>
     length (buffer s) \<le> capacity s \<and> pos s < capacity s \<and>
     (length (buffer s) < capacity s \<longrightarrow> pos s = length (buffer s)) \<and>
     length (n_step_buffer s) \<le> 3"


text \<open>
  One call of a method, and a sequence of calls made one after the other on the same
  object. A caller that catches an exception goes on with the object as the failed
  call left it, so a run keeps the state and drops the result.
\<close>

datatype ('s, 'a) call =
    Add "('s, 'a) transition" int real
  | Sample "nat \<Rightarrow> nat \<Rightarrow> real list \<Rightarrow> nat list" nat
  | Update_priorities "int list" "real list"

fun exec :: "('s, 'a) call \<Rightarrow> ('s, 'a) store \<Rightarrow> ('s, 'a) store" where
  "exec (Add e n_step gamma) s = fst (add s e n_step gamma)"
| "exec (Sample choice batch_size) s = fst (sample s choice batch_size)"
| "exec (Update_priorities indices prios) s = fst (update_priorities s indices prios)"

definition run :: "('s, 'a) call list \<Rightarrow> ('s, 'a) store \<Rightarrow> ('s, 'a) store" where
  "run calls s = fold exec calls s"

text \<open>An update that supplies strictly positive priorities only.\<close>

fun positive_update :: "('s, 'a) call \<Rightarrow> bool" where
  "positive_update (Update_priorities indices prios) = (\<forall>(i, p) \<in> set (zip indices prios). 0 < p)"
| "positive_update _ = True"

text \<open>
  The body of the loop of \<^verbatim>\<open>update_priorities\<close> for a pair whose index the array
  accepts.
\<close>

definition write_priority :: "int \<times> real \<Rightarrow> ('s, 'a) store \<Rightarrow> ('s, 'a) store" where
  "write_priority ip s =
     (case ip of (idx, priority) \<Rightarrow>
        let n = int (length (priorities s))
        in s\<lparr>priorities := (priorities s)[nat (if idx < 0 then idx + n else idx) := priority],
             max_priority := max (max_priority s) priority\<rparr>)"

text \<open>
  A buffer of capacity four after three \<^verbatim>\<open>add\<close> calls with the default \<open>n_step\<close>
  and \<open>gamma = 0.5\<close>: one slot is occupied.
\<close>

definition one_commit :: "(nat, nat) store" where
  "one_commit = \<lparr>capacity = 4, alpha = 6/10, beta = 4/10, beta_increment = 1/1000,
      buffer = [Some (10, 0, 7/2, 13, True)], priorities = [1, 0, 0, 0], pos = 1,
      max_priority = 1,
      n_step_buffer = [(10, 0, 1, 11, False), (11, 1, 2, 12, False), (12, 0, 3, 13, True)]\<rparr>"

text \<open>
  The priorities that \<^verbatim>\<open>add\<close> writes and \<^verbatim>\<open>sample\<close> reads are positive:
  \<open>max_priority\<close>, which seeds a new slot, and the priority of every occupied slot.
\<close>

definition slots_positive :: "('s, 'a) store \<Rightarrow> bool" where
  "slots_positive s \<longleftrightarrow>
     0 < max_priority s \<and> (\<forall>i < length (buffer s). 0 < priorities s ! i)"

text \<open>The three calls that lead to \<open>one_commit\<close>.\<close>

definition first_adds :: "(nat, nat) call list" where
  "first_adds = [Add (10, 0, 1, 11, False) 3 (1/2), Add (11, 1, 2, 12, False) 3 (1/2),
                 Add (12, 0, 3, 13, True) 3 (1/2)]"

text \<open>A random generator that draws slot 0 every time.\<close>

definition draw_first :: "nat \<Rightarrow> nat \<Rightarrow> real list \<Rightarrow> nat list" where
  "draw_first n k probs = replicate k 0"

text \<open>
  A full buffer of capacity two, built with \<open>alpha = 1\<close> and \<open>beta = 1\<close>, whose second
  slot was given priority 3.
\<close>

definition two_slots :: "(nat, nat) store" where
  "two_slots =
     \<lparr>capacity = 2, alpha = 1, beta = 1, beta_increment = 1/1000,
      buffer = [Some (10, 0, 7/2, 13, False), Some (11, 1, 5, 14, True)],
      priorities = [1, 3], pos = 0, max_priority = 3,
      n_step_buffer = [(11, 1, 2, 12, False), (12, 0, 3, 13, False), (13, 1, 4, 14, True)]\<rparr>"



section \<open>Properties\<close>

subsection \<open>Auxiliary facts about \<^verbatim>\<open>add\<close>\<close>

lemma store_ok_init: "0 < cap \<Longrightarrow> store_ok (PrioritizedReplayBuffer cap a b bi)"
  by (simp add: store_ok_def PrioritizedReplayBuffer_def)

lemma length_deque_append:
  "length w \<le> m \<Longrightarrow> length (deque_append m w e) = min m (Suc (length w))"
  by (auto simp: deque_append_def Let_def)

lemma add_no_commit:
  "int (length (deque_append 3 (n_step_buffer s) e)) \<noteq> n \<Longrightarrow>
   add s e n g = (s\<lparr>n_step_buffer := deque_append 3 (n_step_buffer s) e\<rparr>, None)"
  by (simp add: add_def Let_def)

lemma add_commit:
  assumes "store_ok s" and "w = deque_append 3 (n_step_buffer s) e"
    and "int (length w) = n"
    and "hd w = (st, ac, r0, ns0, d0)" and "last w = (st1, ac1, r, ns, d)"
  shows "add s e n g =
    (s\<lparr>n_step_buffer := w,
       buffer := (if length (buffer s) < capacity s
                  then buffer s @ [Some (st, ac, n_step_reward w (length w) g r, ns, d)]
                  else (buffer s)[pos s := Some (st, ac, n_step_reward w (length w) g r, ns, d)]),
       priorities := (priorities s)[pos s := max_priority s],
       pos := (pos s + 1) mod capacity s\<rparr>, None)"
proof (cases "length (buffer s) < capacity s")
  case True
  from assms(2,3) have nn: "nat n = length (deque_append 3 (n_step_buffer s) e)" by auto
  from True assms(1) have p: "pos s = length (buffer s)" by (simp add: store_ok_def)
  from assms(1) True have q: "pos s < length (priorities s)" "0 < capacity s"
    by (auto simp: store_ok_def)
  show ?thesis using True p q nn assms(2-5)
    by (simp add: add_def Let_def)
next
  case False
  from assms(2,3) have nn: "nat n = length (deque_append 3 (n_step_buffer s) e)" by auto
  from False assms(1) have l: "length (buffer s) = capacity s" and c: "0 < capacity s"
    and lp: "length (priorities s) = capacity s"
    by (auto simp: store_ok_def)
  from assms(1) c have p: "pos s < capacity s" by (simp add: store_ok_def)
  show ?thesis using False l c lp p nn assms(2-5)
    by (simp add: add_def Let_def)
qed

text \<open>On an object that satisfies the invariant \<^verbatim>\<open>add\<close> never raises and keeps it.\<close>

lemma add_store_ok:
  assumes "store_ok s"
  shows "\<exists>s'. add s e n g = (s', None) \<and> store_ok s' \<and> capacity s' = capacity s \<and>
           max_priority s' = max_priority s \<and> beta s' = beta s \<and>
           beta_increment s' = beta_increment s \<and> alpha s' = alpha s \<and>
           n_step_buffer s' = deque_append 3 (n_step_buffer s) e \<and>
           (if int (length (deque_append 3 (n_step_buffer s) e)) = n
            then pos s' = (pos s + 1) mod capacity s \<and>
                 length (buffer s') = min (capacity s) (Suc (length (buffer s))) \<and>
                 priorities s' = (priorities s)[pos s := max_priority s]
            else buffer s' = buffer s \<and> priorities s' = priorities s \<and> pos s' = pos s)"
proof (cases "int (length (deque_append 3 (n_step_buffer s) e)) = n")
  case False
  from assms have "length (deque_append 3 (n_step_buffer s) e) \<le> 3"
    by (simp add: store_ok_def length_deque_append)
  with False assms show ?thesis
    by (simp add: add_no_commit store_ok_def)
next
  case True
  let ?w = "deque_append 3 (n_step_buffer s) e"
  obtain st ac r0 ns0 d0 where h: "hd ?w = (st, ac, r0, ns0, d0)"
    by (cases "hd ?w") auto
  obtain st1 ac1 r ns d where l: "last ?w = (st1, ac1, r, ns, d)"
    by (cases "last ?w") auto
  from assms have len: "length ?w \<le> 3"
    by (simp add: store_ok_def length_deque_append)
  note eq = add_commit [OF assms refl True h l, of g]
  from assms len True show ?thesis
    unfolding eq by (auto simp: store_ok_def mod_Suc)
qed

lemma n_step_reward_3:
  "n_step_reward [t0, t1, t2] (length [t0, t1, t2]) g r = reward_of t1 + g * r"
  by (simp add: n_step_reward_def)

subsection \<open>The first commit with the default \<open>n_step = 3\<close>\<close>

text \<open>
  Claim C1. On an object that satisfies the class invariant, \<^verbatim>\<open>add\<close> with
  \<open>n_step = 3\<close> only appends to the pending window while the window then holds fewer
  than three transitions: buffer, priorities and cursor stay as they are. The call that
  brings the window to three entries commits one transition at the cursor: its state
  and action are those of the oldest window entry, its next state and done flag those
  of the newest, and its reward is \<open>r_mid + gamma * r_newest\<close>; the reward of the
  oldest entry does not enter. The slot's priority becomes \<open>max_priority\<close> and the
  cursor advances modulo the capacity.
\<close>

theorem add_first_commit:
  assumes "store_ok s"
  shows "(length (n_step_buffer s) < 2 \<longrightarrow>
            add s e 3 gamma = (s\<lparr>n_step_buffer := n_step_buffer s @ [e]\<rparr>, None)) \<and>
         (n_step_buffer s = [(st0, a0, r0, ns0, d0), (st1, a1, r1, ns1, d1)] \<and>
          e = (st2, a2, r2, ns2, d2) \<longrightarrow>
            add s e 3 gamma =
              (s\<lparr>n_step_buffer := [(st0, a0, r0, ns0, d0), (st1, a1, r1, ns1, d1), e],
                 buffer := (if length (buffer s) < capacity s
                            then buffer s @ [Some (st0, a0, r1 + gamma * r2, ns2, d2)]
                            else (buffer s)[pos s := Some (st0, a0, r1 + gamma * r2, ns2, d2)]),
                 priorities := (priorities s)[pos s := max_priority s],
                 pos := (pos s + 1) mod capacity s\<rparr>, None))"
proof (intro conjI impI)
  assume "length (n_step_buffer s) < 2"
  then have "deque_append 3 (n_step_buffer s) e = n_step_buffer s @ [e]"
    and "int (length (deque_append 3 (n_step_buffer s) e)) \<noteq> 3"
    by (auto simp: deque_append_def Let_def)
  then show "add s e 3 gamma = (s\<lparr>n_step_buffer := n_step_buffer s @ [e]\<rparr>, None)"
    using add_no_commit [of s e 3 gamma] by simp
next
  assume h: "n_step_buffer s = [(st0, a0, r0, ns0, d0), (st1, a1, r1, ns1, d1)] \<and>
          e = (st2, a2, r2, ns2, d2)"
  let ?w = "[(st0, a0, r0, ns0, d0), (st1, a1, r1, ns1, d1), e]"
  from h have w: "?w = deque_append 3 (n_step_buffer s) e"
    by (simp add: deque_append_def Let_def)
  have "add s e 3 gamma =
    (s\<lparr>n_step_buffer := ?w,
       buffer := (if length (buffer s) < capacity s
                  then buffer s @ [Some (st0, a0, n_step_reward ?w (length ?w) gamma r2, ns2, d2)]
                  else (buffer s)[pos s := Some (st0, a0, n_step_reward ?w (length ?w) gamma r2, ns2, d2)]),
       priorities := (priorities s)[pos s := max_priority s],
       pos := (pos s + 1) mod capacity s\<rparr>, None)"
    by (rule add_commit [OF assms w]) (use h in simp_all)
  then show "add s e 3 gamma =
              (s\<lparr>n_step_buffer := ?w,
                 buffer := (if length (buffer s) < capacity s
                            then buffer s @ [Some (st0, a0, r1 + gamma * r2, ns2, d2)]
                            else (buffer s)[pos s := Some (st0, a0, r1 + gamma * r2, ns2, d2)]),
                 priorities := (priorities s)[pos s := max_priority s],
                 pos := (pos s + 1) mod capacity s\<rparr>, None)"
    unfolding n_step_reward_3 using h by (simp add: reward_of_def)
qed


text \<open>A buffer of capacity four, as \<^verbatim>\<open>__init__\<close> builds it.\<close>

lemma init4: "(PrioritizedReplayBuffer 4 a b bi :: ('s, 'a) store) =
   \<lparr>capacity = 4, alpha = a, beta = b, beta_increment = bi,
     buffer = [], priorities = [0, 0, 0, 0], pos = 0, max_priority = 1, n_step_buffer = []\<rparr>"
  by (simp add: PrioritizedReplayBuffer_def eval_nat_numeral)

theorem add_first_commit_witness:
  "store_ok (PrioritizedReplayBuffer 4 (6/10) (4/10) (1/1000) :: (nat, nat) store) \<and>
   add_all (PrioritizedReplayBuffer 4 (6/10) (4/10) (1/1000))
     [(10, 0, 1, 11, False), (11, 1, 2, 12, False), (12::nat, 0::nat, 3, 13, True)] 3 (1/2) =
   (\<lparr>capacity = 4, alpha = 6/10, beta = 4/10, beta_increment = 1/1000,
     buffer = [Some (10, 0, 7/2, 13, True)], priorities = [1, 0, 0, 0], pos = 1,
     max_priority = 1,
     n_step_buffer = [(10, 0, 1, 11, False), (11, 1, 2, 12, False), (12, 0, 3, 13, True)]\<rparr>, None)"
proof -
  let ?a = "\<lparr>capacity = 4, alpha = 6/10, beta = 4/10, beta_increment = 1/1000,
     buffer = [], priorities = [0, 0, 0, 0], pos = 0, max_priority = 1, n_step_buffer = []\<rparr> :: (nat, nat) store"
  let ?b = "?a\<lparr>n_step_buffer := [(10, 0, 1, 11, False)]\<rparr>"
  let ?c = "?a\<lparr>n_step_buffer := [(10, 0, 1, 11, False), (11, 1, 2, 12, False)]\<rparr>"
  have oa: "store_ok ?a" and ob: "store_ok ?b" and oc: "store_ok ?c"
    by (simp_all add: store_ok_def)
  have 1: "add ?a (10, 0, 1, 11, False) 3 (1/2) = (?b, None)"
    using add_first_commit [OF oa, of "(10, 0, 1, 11, False)" "1/2"]
    by simp
  have 2: "add ?b (11, 1, 2, 12, False) 3 (1/2) = (?c, None)"
    using add_first_commit [OF ob, of "(11, 1, 2, 12, False)" "1/2"]
    by simp
  have 3: "add ?c (12, 0, 3, 13, True) 3 (1/2) =
     (\<lparr>capacity = 4, alpha = 6/10, beta = 4/10, beta_increment = 1/1000,
     buffer = [Some (10, 0, 7/2, 13, True)], priorities = [1, 0, 0, 0], pos = 1,
     max_priority = 1,
     n_step_buffer = [(10, 0, 1, 11, False), (11, 1, 2, 12, False), (12, 0, 3, 13, True)]\<rparr>, None)"
    using add_first_commit [OF oc, where e = "(12, 0, 3, 13, True)" and gamma = "1/2"
        and ?st0.0 = 10 and ?a0.0 = 0 and ?r0.0 = 1 and ?ns0.0 = 11 and ?d0.0 = False
        and ?st1.0 = 11 and ?a1.0 = 1 and ?r1.0 = 2 and ?ns1.0 = 12 and ?d1.0 = False
        and ?st2.0 = 12 and ?a2.0 = 0 and ?r2.0 = 3 and ?ns2.0 = 13 and ?d2.0 = True]
    by simp
  show ?thesis unfolding init4 using oa 1 2 3 by simp
qed

subsection \<open>The window slides\<close>

lemma add_all_full_window:
  assumes "store_ok s" and "length (n_step_buffer s) = 3"
  shows "\<exists>s'. add_all s es 3 g = (s', None) \<and> store_ok s' \<and> capacity s' = capacity s \<and>
           length (n_step_buffer s') = 3 \<and>
           pos s' = (pos s + length es) mod capacity s \<and>
           length (buffer s') = min (capacity s) (length (buffer s) + length es)"
  using assms
proof (induction es arbitrary: s)
  case Nil
  then show ?case by (simp add: store_ok_def)
next
  case (Cons e es)
  from Cons.prems have w: "int (length (deque_append 3 (n_step_buffer s) e)) = 3"
    by (simp add: length_deque_append)
  from add_store_ok [OF Cons.prems(1), of e 3 g] w obtain s1 where
    s1: "add s e 3 g = (s1, None)" "store_ok s1" "capacity s1 = capacity s"
      "n_step_buffer s1 = deque_append 3 (n_step_buffer s) e"
      "pos s1 = (pos s + 1) mod capacity s"
      "length (buffer s1) = min (capacity s) (Suc (length (buffer s)))"
    by auto
  from s1(4) w have "length (n_step_buffer s1) = 3" by simp
  from Cons.IH [OF s1(2) this] obtain s' where
    s': "add_all s1 es 3 g = (s', None)" "store_ok s'" "capacity s' = capacity s1"
      "length (n_step_buffer s') = 3"
      "pos s' = (pos s1 + length es) mod capacity s1"
      "length (buffer s') = min (capacity s1) (length (buffer s1) + length es)"
    by auto
  have "pos s' = (pos s + length (e # es)) mod capacity s"
    using s'(5) s1(3,5) by (simp add: mod_simps ac_simps)
  moreover have "length (buffer s') = min (capacity s) (length (buffer s) + length (e # es))"
    using s'(6) s1(3,6) by auto
  ultimately show ?case using s1 s' by simp
qed

text \<open>
  Claim C2. With \<open>n_step = 3\<close> the pending window is not cleared by a commit. On an
  object that satisfies the class invariant and whose window holds three transitions, a
  call of \<^verbatim>\<open>add\<close> drops the oldest one, keeps the other two, and commits one
  transition built from the new window. So does every later call: after any further
  calls \<open>es\<close> no exception was raised, the window still holds three entries, the
  cursor has advanced by one slot per call (modulo the capacity) and the size has grown
  by one per call up to the capacity.
\<close>

theorem add_sliding_window:
  assumes "store_ok s"
    and "n_step_buffer s = [(st0, a0, r0, ns0, d0), (st1, a1, r1, ns1, d1), (st2, a2, r2, ns2, d2)]"
  shows "add s (st3, a3, r3, ns3, d3) 3 gamma =
           (s\<lparr>n_step_buffer := [(st1, a1, r1, ns1, d1), (st2, a2, r2, ns2, d2), (st3, a3, r3, ns3, d3)],
              buffer := (if length (buffer s) < capacity s
                         then buffer s @ [Some (st1, a1, r2 + gamma * r3, ns3, d3)]
                         else (buffer s)[pos s := Some (st1, a1, r2 + gamma * r3, ns3, d3)]),
              priorities := (priorities s)[pos s := max_priority s],
              pos := (pos s + 1) mod capacity s\<rparr>, None) \<and>
         (\<exists>s'. add_all s es 3 gamma = (s', None) \<and> length (n_step_buffer s') = 3 \<and>
               pos s' = (pos s + length es) mod capacity s \<and>
               len s' = min (capacity s) (len s + length es))"
proof
  let ?e = "(st3, a3, r3, ns3, d3)"
  let ?w = "[(st1, a1, r1, ns1, d1), (st2, a2, r2, ns2, d2), ?e]"
  from assms(2) have w: "?w = deque_append 3 (n_step_buffer s) ?e"
    by (simp add: deque_append_def Let_def)
  have "add s ?e 3 gamma =
    (s\<lparr>n_step_buffer := ?w,
       buffer := (if length (buffer s) < capacity s
                  then buffer s @ [Some (st1, a1, n_step_reward ?w (length ?w) gamma r3, ns3, d3)]
                  else (buffer s)[pos s := Some (st1, a1, n_step_reward ?w (length ?w) gamma r3, ns3, d3)]),
       priorities := (priorities s)[pos s := max_priority s],
       pos := (pos s + 1) mod capacity s\<rparr>, None)"
    by (rule add_commit [OF assms(1) w]) simp_all
  then show "add s ?e 3 gamma =
           (s\<lparr>n_step_buffer := ?w,
              buffer := (if length (buffer s) < capacity s
                         then buffer s @ [Some (st1, a1, r2 + gamma * r3, ns3, d3)]
                         else (buffer s)[pos s := Some (st1, a1, r2 + gamma * r3, ns3, d3)]),
              priorities := (priorities s)[pos s := max_priority s],
              pos := (pos s + 1) mod capacity s\<rparr>, None)"
    unfolding n_step_reward_3 by (simp add: reward_of_def)
next
  from assms(2) have "length (n_step_buffer s) = 3" by simp
  from add_all_full_window [OF assms(1) this, of es gamma]
  show "\<exists>s'. add_all s es 3 gamma = (s', None) \<and> length (n_step_buffer s') = 3 \<and>
               pos s' = (pos s + length es) mod capacity s \<and>
               len s' = min (capacity s) (len s + length es)"
    by (auto simp: len_def)
qed

theorem add_sliding_window_witness:
  "store_ok (\<lparr>capacity = 2, alpha = 6/10, beta = 4/10, beta_increment = 1/1000,
      buffer = [Some (10, 0, 7/2, 13, False), Some (11, 1, 5, 14, False)],
      priorities = [1, 1], pos = 0, max_priority = 1,
      n_step_buffer = [(11, 1, 2, 12, False), (12, 0, 3, 13, False), (13, 1, 4, 14, False)]\<rparr>
      :: (nat, nat) store) \<and>
   add \<lparr>capacity = 2, alpha = 6/10, beta = 4/10, beta_increment = 1/1000,
      buffer = [Some (10, 0, 7/2, 13, False), Some (11, 1, 5, 14, False)],
      priorities = [1, 1], pos = 0, max_priority = 1,
      n_step_buffer = [(11, 1, 2, 12, False), (12, 0, 3, 13, False), (13, 1, 4, 14, False)]\<rparr>
     (14::nat, 0::nat, 5, 15, True) 3 (1/2) =
   (\<lparr>capacity = 2, alpha = 6/10, beta = 4/10, beta_increment = 1/1000,
      buffer = [Some (12, 0, 13/2, 15, True), Some (11, 1, 5, 14, False)],
      priorities = [1, 1], pos = 1, max_priority = 1,
      n_step_buffer = [(12, 0, 3, 13, False), (13, 1, 4, 14, False), (14, 0, 5, 15, True)]\<rparr>, None) \<and>
   (\<exists>s'. add_all \<lparr>capacity = 2, alpha = 6/10, beta = 4/10, beta_increment = 1/1000,
      buffer = [Some (10, 0, 7/2, 13, False), Some (11, 1, 5, 14, False)],
      priorities = [1, 1], pos = 0, max_priority = 1,
      n_step_buffer = [(11, 1, 2, 12, False), (12, 0, 3, 13, False), (13, 1, 4, 14, False)]\<rparr>
       [(14::nat, 0::nat, 5, 15, False), (15, 1, 6, 16, False), (16, 1, 7, 17, True)] 3 (1/2) = (s', None) \<and>
      length (n_step_buffer s') = 3 \<and> pos s' = 1 \<and> len s' = 2)"
proof -
  let ?s = "\<lparr>capacity = 2, alpha = 6/10, beta = 4/10, beta_increment = 1/1000,
      buffer = [Some (10, 0, 7/2, 13, False), Some (11, 1, 5, 14, False)],
      priorities = [1, 1], pos = 0, max_priority = 1,
      n_step_buffer = [(11, 1, 2, 12, False), (12, 0, 3, 13, False), (13, 1, 4, 14, False)]\<rparr>
      :: (nat, nat) store"
  have ok: "store_ok ?s" by (simp add: store_ok_def)
  have w: "n_step_buffer ?s = [(11, 1, 2, 12, False), (12, 0, 3, 13, False), (13, 1, 4, 14, False)]"
    by simp
  let ?es = "[(14, 0, 5, 15, False), (15, 1, 6, 16, False), (16, 1, 7, 17, True)]
      :: (nat, nat) transition list"
  note inst = add_sliding_window [OF ok w, where ?st3.0 = 14 and ?a3.0 = 0 and ?r3.0 = 5
        and ?ns3.0 = 15 and ?d3.0 = True and gamma = "1/2" and es = ?es]
  from inst have step: "add ?s (14, 0, 5, 15, True) 3 (1/2) =
   (\<lparr>capacity = 2, alpha = 6/10, beta = 4/10, beta_increment = 1/1000,
      buffer = [Some (12, 0, 13/2, 15, True), Some (11, 1, 5, 14, False)],
      priorities = [1, 1], pos = 1, max_priority = 1,
      n_step_buffer = [(12, 0, 3, 13, False), (13, 1, 4, 14, False), (14, 0, 5, 15, True)]\<rparr>, None)"
    by simp
  from inst obtain s' where s': "add_all ?s ?es 3 (1/2) = (s', None)"
    "length (n_step_buffer s') = 3"
    "pos s' = (pos ?s + length ?es) mod capacity ?s"
    "len s' = min (capacity ?s) (len ?s + length ?es)"
    by blast
  have l: "length ?es = 3" by simp
  have "pos s' = 1" unfolding s'(3) l by simp
  moreover have "len s' = 2" unfolding s'(4) l by (simp add: len_def)
  ultimately have "\<exists>s'. add_all ?s ?es 3 (1/2) = (s', None) \<and>
      length (n_step_buffer s') = 3 \<and> pos s' = 1 \<and> len s' = 2"
    using s'(1,2) by blast
  with ok step show ?thesis by blast
qed

subsection \<open>\<open>n_step\<close> above the length of the window\<close>

text \<open>
  Claim C10. The pending window is a deque of maximal length 3, so for \<open>n_step \<ge> 4\<close>
  its length never equals \<open>n_step\<close>: however many transitions are added, no call
  raises, every call only appends to the window, and the ring buffer, the priority
  array, the cursor and the size are what they were.
\<close>

theorem add_n_step_above_window:
  assumes "4 \<le> n_step" and "length (n_step_buffer s) \<le> 3"
  shows "add_all s es n_step gamma =
           (s\<lparr>n_step_buffer := fold (\<lambda>e w. deque_append 3 w e) es (n_step_buffer s)\<rparr>, None) \<and>
         length (n_step_buffer (fst (add_all s es n_step gamma))) \<le> 3 \<and>
         buffer (fst (add_all s es n_step gamma)) = buffer s \<and>
         priorities (fst (add_all s es n_step gamma)) = priorities s \<and>
         pos (fst (add_all s es n_step gamma)) = pos s \<and>
         len (fst (add_all s es n_step gamma)) = len s"
  using assms(2)
proof (induction es arbitrary: s)
  case Nil
  then show ?case by simp
next
  case (Cons e es)
  let ?s1 = "s\<lparr>n_step_buffer := deque_append 3 (n_step_buffer s) e\<rparr>"
  from Cons.prems have l: "length (deque_append 3 (n_step_buffer s) e) \<le> 3"
    by (simp add: length_deque_append)
  with assms(1) have "int (length (deque_append 3 (n_step_buffer s) e)) \<noteq> n_step" by simp
  then have a: "add s e n_step gamma = (?s1, None)" by (rule add_no_commit)
  from l have "length (n_step_buffer ?s1) \<le> 3" by simp
  from Cons.IH [OF this] a show ?case
    by (auto simp: len_def)
qed

theorem add_n_step_above_window_witness:
  "(4::int) \<le> 4 \<and>
   length (n_step_buffer (PrioritizedReplayBuffer 4 (6/10) (4/10) (1/1000) :: (nat, nat) store)) \<le> 3 \<and>
   add_all (PrioritizedReplayBuffer 4 (6/10) (4/10) (1/1000))
     [(10, 0, 1, 11, False), (11, 1, 2, 12, False), (12, 0, 3, 13, False),
      (13, 1, 4, 14, False), (14::nat, 0::nat, 5, 15, True)] 4 (99/100) =
   (\<lparr>capacity = 4, alpha = 6/10, beta = 4/10, beta_increment = 1/1000,
     buffer = [], priorities = [0, 0, 0, 0], pos = 0, max_priority = 1,
     n_step_buffer = [(12, 0, 3, 13, False), (13, 1, 4, 14, False), (14, 0, 5, 15, True)]\<rparr>, None)"
  using add_n_step_above_window [of 4 "PrioritizedReplayBuffer 4 (6/10) (4/10) (1/1000) :: (nat, nat) store"
      "[(10, 0, 1, 11, False), (11, 1, 2, 12, False), (12, 0, 3, 13, False),
        (13, 1, 4, 14, False), (14, 0, 5, 15, True)]" "99/100"]
  by (simp add: init4 deque_append_def)

subsection \<open>Sampling from an empty buffer\<close>

text \<open>
  Claim C7. \<^verbatim>\<open>sample\<close> on an empty buffer returns three empty lists for every batch
  size, whatever the random generator is; no exception is raised and the object,
  \<open>beta\<close> included, is unchanged.
\<close>

theorem sample_empty:
  "len s = 0 \<Longrightarrow> sample s choice batch_size = (s, Inr ([], [], []))"
  by (simp add: sample_def len_def)

theorem sample_empty_witness:
  "len (PrioritizedReplayBuffer 4 (6/10) (4/10) (1/1000) :: (nat, nat) store) = 0 \<and>
   sample (PrioritizedReplayBuffer 4 (6/10) (4/10) (1/1000) :: (nat, nat) store)
     (\<lambda>n k p. replicate k 0) 5 =
   (PrioritizedReplayBuffer 4 (6/10) (4/10) (1/1000), Inr ([], [], []))"
proof -
  have e: "len (PrioritizedReplayBuffer 4 (6/10) (4/10) (1/1000) :: (nat, nat) store) = 0"
    by (simp add: len_def PrioritizedReplayBuffer_def)
  from e sample_empty [OF e] show ?thesis by simp
qed

subsection \<open>The scenario with \<open>n_step = 2\<close>\<close>

text \<open>
  Claim C3. Capacity 4, \<open>n_step = 2\<close>, \<open>gamma = 0.5\<close>, five transitions with rewards
  1 to 5. The second call commits the transition with the state and action of the first
  transition and reward 2. No later call commits: from the third call on the window
  holds three entries, which is not \<open>n_step\<close>. After the five calls the size is 1 and
  the cursor is at slot 1.
\<close>

theorem add_n_step_2_commits_once:
  "add_all (PrioritizedReplayBuffer 4 (6/10) (4/10) (1/1000))
     [(10, 0, 1, 11, False), (11, 1, 2, 12, False), (12, 0, 3, 13, False),
      (13, 1, 4, 14, False), (14::nat, 0::nat, 5, 15, True)] 2 (1/2) =
   (\<lparr>capacity = 4, alpha = 6/10, beta = 4/10, beta_increment = 1/1000,
     buffer = [Some (10, 0, 2, 12, False)], priorities = [1, 0, 0, 0], pos = 1,
     max_priority = 1,
     n_step_buffer = [(12, 0, 3, 13, False), (13, 1, 4, 14, False), (14, 0, 5, 15, True)]\<rparr>, None)"
  by (simp add: init4 add_def deque_append_def n_step_reward_def Let_def)


subsection \<open>Auxiliary facts about \<^verbatim>\<open>update_priorities\<close>\<close>

lemma write_priority_fields [simp]:
  "length (priorities (write_priority ip s)) = length (priorities s)"
  "capacity (write_priority ip s) = capacity s"
  "buffer (write_priority ip s) = buffer s"
  "pos (write_priority ip s) = pos s"
  "n_step_buffer (write_priority ip s) = n_step_buffer s"
  "beta (write_priority ip s) = beta s"
  "beta_increment (write_priority ip s) = beta_increment s"
  "alpha (write_priority ip s) = alpha s"
  "max_priority (write_priority ip s) = max (max_priority s) (snd ip)"
  by (cases ip; simp add: write_priority_def Let_def)+

lemma update_loop_Cons:
  "update_loop s (ip # rest) =
     (if fst ip < - int (length (priorities s)) \<or> int (length (priorities s)) \<le> fst ip
      then (s, Some IndexError) else update_loop (write_priority ip s) rest)"
  by (cases ip) (simp add: write_priority_def Let_def)

lemma update_loop_in_range:
  assumes "\<forall>ip \<in> set ips. - int (length (priorities s)) \<le> fst ip \<and> fst ip < int (length (priorities s))"
  shows "update_loop s ips = (fold write_priority ips s, None)"
  using assms
proof (induction ips arbitrary: s)
  case Nil
  show ?case by simp
next
  case (Cons ip ips)
  from Cons.prems have "update_loop s (ip # ips) = update_loop (write_priority ip s) ips"
    by (simp add: update_loop_Cons del: update_loop.simps)
  also have "\<dots> = (fold write_priority ips (write_priority ip s), None)"
    using Cons.prems by (intro Cons.IH) simp
  finally show ?case by simp
qed

lemma fold_write_priority_max:
  "max_priority (fold write_priority ips s) = Max (insert (max_priority s) (snd ` set ips))"
proof (induction ips arbitrary: s)
  case Nil
  show ?case by simp
next
  case (Cons ip ips)
  have "Max (insert (max (max_priority s) (snd ip)) (snd ` set ips)) =
        Max (insert (max_priority s) (insert (snd ip) (snd ` set ips)))"
    by (cases "ips = []") (simp_all add: max.assoc)
  with Cons.IH [of "write_priority ip s"] show ?case by simp
qed

lemma update_loop_error_iff:
  "snd (update_loop s ips) = Some IndexError \<longleftrightarrow>
     (\<exists>ip \<in> set ips. fst ip < - int (length (priorities s)) \<or> int (length (priorities s)) \<le> fst ip)"
proof (induction ips arbitrary: s)
  case Nil
  show ?case by simp
next
  case (Cons ip ips)
  show ?case
    using Cons.IH [of "write_priority ip s"]
    by (auto simp: update_loop_Cons simp del: update_loop.simps)
qed

lemma update_loop_result: "snd (update_loop s ips) = None \<or> snd (update_loop s ips) = Some IndexError"
proof (induction ips arbitrary: s)
  case Nil
  show ?case by simp
next
  case (Cons ip ips)
  show ?case
    using Cons.IH [of "write_priority ip s"]
    by (auto simp: update_loop_Cons simp del: update_loop.simps)
qed


text \<open>The pairs before the first rejected index are applied, the others are not.\<close>

lemma update_loop_prefix:
  "update_loop s ips =
     (fold write_priority
        (takeWhile (\<lambda>ip. - int (length (priorities s)) \<le> fst ip \<and>
                         fst ip < int (length (priorities s))) ips) s,
      if \<forall>ip \<in> set ips. - int (length (priorities s)) \<le> fst ip \<and>
                          fst ip < int (length (priorities s))
      then None else Some IndexError)"
proof (induction ips arbitrary: s)
  case Nil
  show ?case by simp
next
  case (Cons ip ips)
  show ?case
  proof (cases "fst ip < - int (length (priorities s)) \<or> int (length (priorities s)) \<le> fst ip")
    case True
    then show ?thesis
      by (auto simp: update_loop_Cons simp del: update_loop.simps)
  next
    case False
    then have "update_loop s (ip # ips) = update_loop (write_priority ip s) ips"
      by (simp add: update_loop_Cons del: update_loop.simps)
    with False Cons.IH [of "write_priority ip s"] show ?thesis
      by (simp add: not_less not_le del: update_loop.simps)
  qed
qed

lemma store_ok_write_priority: "store_ok s \<Longrightarrow> store_ok (write_priority ip s)"
  by (simp add: store_ok_def)

subsection \<open>Updated priorities and the next commit\<close>

text \<open>
  Claim C5. When every supplied index is one that the priority array accepts,
  \<^verbatim>\<open>update_priorities\<close> raises nothing and applies the pairs in order, each one
  overwriting \<open>priorities[index]\<close> and replacing \<open>max_priority\<close> by the larger of
  \<open>max_priority\<close> and the new priority; so \<open>max_priority\<close> ends as the largest of its
  old value and all supplied priorities. Consequently, on an object that satisfies the
  class invariant, after \<^verbatim>\<open>update_priorities([i], [p])\<close> with \<open>p\<close> above the current
  \<open>max_priority\<close>, an \<^verbatim>\<open>add\<close> that commits writes exactly \<open>p\<close> as the priority of the
  slot at the cursor.
\<close>

theorem update_priorities_then_commit:
  assumes "\<forall>(idx, priority) \<in> set (zip indices prios).
             - int (length (priorities s)) \<le> idx \<and> idx < int (length (priorities s))"
  shows "update_priorities s indices prios = (fold write_priority (zip indices prios) s, None) \<and>
         max_priority (fst (update_priorities s indices prios)) =
           Max (insert (max_priority s) (snd ` set (zip indices prios))) \<and>
         (store_ok s \<and> max_priority s < p \<and> 0 \<le> i \<and> i < int (capacity s) \<and>
          int (length (deque_append 3 (n_step_buffer s) e)) = n_step \<longrightarrow>
            update_priorities s [i] [p] =
              (s\<lparr>priorities := (priorities s)[nat i := p], max_priority := p\<rparr>, None) \<and>
            snd (add (fst (update_priorities s [i] [p])) e n_step gamma) = None \<and>
            priorities (fst (add (fst (update_priorities s [i] [p])) e n_step gamma)) ! pos s = p)"
proof (intro conjI impI)
  from assms have r: "\<forall>ip \<in> set (zip indices prios).
      - int (length (priorities s)) \<le> fst ip \<and> fst ip < int (length (priorities s))"
    by auto
  show u: "update_priorities s indices prios = (fold write_priority (zip indices prios) s, None)"
    unfolding update_priorities_def by (rule update_loop_in_range [OF r])
  show "max_priority (fst (update_priorities s indices prios)) =
           Max (insert (max_priority s) (snd ` set (zip indices prios)))"
    unfolding u by (simp add: fold_write_priority_max)
next
  assume h: "store_ok s \<and> max_priority s < p \<and> 0 \<le> i \<and> i < int (capacity s) \<and>
          int (length (deque_append 3 (n_step_buffer s) e)) = n_step"
  let ?s1 = "s\<lparr>priorities := (priorities s)[nat i := p], max_priority := p\<rparr>"
  from h have lp: "length (priorities s) = capacity s" and ps: "pos s < capacity s"
    by (simp_all add: store_ok_def)
  from h lp have w: "write_priority (i, p) s = ?s1"
    by (simp add: write_priority_def Let_def max_def)
  from h lp show u1: "update_priorities s [i] [p] = (?s1, None)"
    by (simp add: update_priorities_def update_loop_Cons [of s "(i, p)" "[]"] w)
  from h have ok1: "store_ok ?s1" unfolding w [symmetric] by (simp add: store_ok_write_priority)
  from add_store_ok [OF ok1, of e n_step gamma] h obtain s' where
    s': "add ?s1 e n_step gamma = (s', None)"
      "priorities s' = (priorities ?s1)[pos ?s1 := max_priority ?s1]"
    by auto
  show "snd (add (fst (update_priorities s [i] [p])) e n_step gamma) = None"
    unfolding u1 using s'(1) by simp
  show "priorities (fst (add (fst (update_priorities s [i] [p])) e n_step gamma)) ! pos s = p"
    unfolding u1 using s' lp ps by simp
qed

theorem update_priorities_then_commit_witness:
  "update_priorities one_commit [0, - 1] [1/2, 3] =
     (one_commit\<lparr>priorities := [1/2, 0, 0, 3], max_priority := 3\<rparr>, None) \<and>
   store_ok one_commit \<and> max_priority one_commit < 5/2 \<and>
   update_priorities one_commit [0] [5/2] =
     (one_commit\<lparr>priorities := [5/2, 0, 0, 0], max_priority := 5/2\<rparr>, None) \<and>
   priorities (fst (add (fst (update_priorities one_commit [0] [5/2])) (13, 1, 4, 14, False) 3 (1/2))) ! 1
     = 5/2"
proof -
  have r: "\<forall>(idx, priority) \<in> set (zip [0, - 1] [1/2, 3::real]).
      - int (length (priorities one_commit)) \<le> idx \<and> idx < int (length (priorities one_commit))"
    by (simp add: one_commit_def)
  have ok: "store_ok one_commit" by (simp add: one_commit_def store_ok_def)
  have m: "max_priority one_commit < 5/2" by (simp add: one_commit_def)
  have c: "(0::int) \<le> 0 \<and> 0 < int (capacity one_commit) \<and>
      int (length (deque_append 3 (n_step_buffer one_commit) (13, 1, 4, 14, False))) = 3"
    by (simp add: one_commit_def deque_append_def)
  note inst = update_priorities_then_commit [OF r, where p = "5/2" and i = 0
      and e = "(13, 1, 4, 14, False)" and n_step = 3 and gamma = "1/2"]
  have "fold write_priority (zip [0, - 1] [1/2, 3]) one_commit =
      one_commit\<lparr>priorities := [1/2, 0, 0, 3], max_priority := 3\<rparr>"
    by (simp add: write_priority_def one_commit_def Let_def)
  with inst [THEN conjunct1] have 1: "update_priorities one_commit [0, - 1] [1/2, 3] =
     (one_commit\<lparr>priorities := [1/2, 0, 0, 3], max_priority := 3\<rparr>, None)"
    by (simp only:)
  from inst [THEN conjunct2, THEN conjunct2] ok m c
  have k: "update_priorities one_commit [0] [5/2] =
        (one_commit\<lparr>priorities := (priorities one_commit)[nat 0 := 5/2], max_priority := 5/2\<rparr>, None) \<and>
      snd (add (fst (update_priorities one_commit [0] [5/2])) (13, 1, 4, 14, False) 3 (1/2)) = None \<and>
      priorities (fst (add (fst (update_priorities one_commit [0] [5/2]))
        (13, 1, 4, 14, False) 3 (1/2))) ! pos one_commit = 5/2"
    by blast
  have p1: "pos one_commit = 1" by (simp add: one_commit_def)
  have q: "one_commit\<lparr>priorities := (priorities one_commit)[nat 0 := 5/2], max_priority := 5/2\<rparr> =
      one_commit\<lparr>priorities := [5/2, 0, 0, 0], max_priority := 5/2\<rparr>"
    by (simp add: one_commit_def)
  from k [THEN conjunct1] have 2: "update_priorities one_commit [0] [5/2] =
     (one_commit\<lparr>priorities := [5/2, 0, 0, 0], max_priority := 5/2\<rparr>, None)"
    unfolding q .
  from k [THEN conjunct2, THEN conjunct2] have 3: "priorities (fst (add (fst (update_priorities one_commit [0] [5/2]))
        (13, 1, 4, 14, False) 3 (1/2))) ! 1 = 5/2"
    unfolding p1 .
  from ok m 1 2 3 show ?thesis by blast
qed

subsection \<open>Which indices \<^verbatim>\<open>update_priorities\<close> rejects\<close>

text \<open>
  Claim C9, as amended. The bounds that \<^verbatim>\<open>update_priorities\<close> enforces are those of
  the priority array, not of the occupied range: for an array of \<open>capacity\<close> entries
  the call raises \<^verbatim>\<open>IndexError\<close> exactly when some supplied index lies outside
  \<open>[-capacity, capacity)\<close>, and raises nothing else. In every case the object is left
  with exactly the pairs before the first such index applied, in order: the failing
  pair and the pairs after it are not written. Every index inside these bounds is
  written, a negative one counting from the end of the array, whether the slot is
  occupied or not.
\<close>

theorem update_priorities_bounds:
  assumes "length (priorities s) = capacity s"
  shows "(snd (update_priorities s indices prios) = Some IndexError \<longleftrightarrow>
            (\<exists>(idx, priority) \<in> set (zip indices prios).
                idx < - int (capacity s) \<or> int (capacity s) \<le> idx)) \<and>
         (snd (update_priorities s indices prios) \<noteq> Some IndexError \<longrightarrow>
            update_priorities s indices prios = (fold write_priority (zip indices prios) s, None)) \<and>
         update_priorities s indices prios =
           (fold write_priority
              (takeWhile (\<lambda>(idx, priority). - int (capacity s) \<le> idx \<and> idx < int (capacity s))
                 (zip indices prios)) s,
            if \<forall>(idx, priority) \<in> set (zip indices prios).
                 - int (capacity s) \<le> idx \<and> idx < int (capacity s)
            then None else Some IndexError) \<and>
         (- int (capacity s) \<le> i \<and> i < int (capacity s) \<longrightarrow>
            update_priorities s [i] [p] =
              (s\<lparr>priorities := (priorities s)[nat (if i < 0 then i + int (capacity s) else i) := p],
                 max_priority := max (max_priority s) p\<rparr>, None))"
proof (intro conjI impI)
  show e: "snd (update_priorities s indices prios) = Some IndexError \<longleftrightarrow>
            (\<exists>(idx, priority) \<in> set (zip indices prios).
                idx < - int (capacity s) \<or> int (capacity s) \<le> idx)"
    unfolding update_priorities_def update_loop_error_iff assms by force
  have sp: "(\<lambda>(idx, priority). - int (capacity s) \<le> idx \<and> idx < int (capacity s)) =
      (\<lambda>ip :: int \<times> real. - int (capacity s) \<le> fst ip \<and> fst ip < int (capacity s))"
    by (simp add: fun_eq_iff split_beta)
  show "update_priorities s indices prios =
           (fold write_priority
              (takeWhile (\<lambda>(idx, priority). - int (capacity s) \<le> idx \<and> idx < int (capacity s))
                 (zip indices prios)) s,
            if \<forall>(idx, priority) \<in> set (zip indices prios).
                 - int (capacity s) \<le> idx \<and> idx < int (capacity s)
            then None else Some IndexError)"
    unfolding sp update_priorities_def update_loop_prefix [of s] assms ..
  assume "snd (update_priorities s indices prios) \<noteq> Some IndexError"
  with e assms have "\<forall>ip \<in> set (zip indices prios).
      - int (length (priorities s)) \<le> fst ip \<and> fst ip < int (length (priorities s))"
    by (auto simp: not_less not_le)
  then show "update_priorities s indices prios = (fold write_priority (zip indices prios) s, None)"
    unfolding update_priorities_def by (rule update_loop_in_range)
next
  assume "- int (capacity s) \<le> i \<and> i < int (capacity s)"
  with assms show "update_priorities s [i] [p] =
              (s\<lparr>priorities := (priorities s)[nat (if i < 0 then i + int (capacity s) else i) := p],
                 max_priority := max (max_priority s) p\<rparr>, None)"
    by (simp add: update_priorities_def Let_def)
qed

text \<open>The object \<open>one_commit\<close> is what three \<^verbatim>\<open>add\<close> calls leave of a new buffer.\<close>

lemma one_commit_reached:
  "add_all (PrioritizedReplayBuffer 4 (6/10) (4/10) (1/1000))
     [(10, 0, 1, 11, False), (11, 1, 2, 12, False), (12, 0, 3, 13, True)] 3 (1/2) =
   (one_commit, None)"
proof -
  have "[Suc 0 ..< 2] = [Suc 0]" by (simp add: numeral_2_eq_2)
  then show ?thesis
    by (simp add: one_commit_def init4 add_def deque_append_def n_step_reward_def reward_of_def Let_def)
qed

text \<open>
  Claim C9, as stated, fails: with one occupied slot, index 2 is outside \<open>[0, size)\<close>,
  and \<^verbatim>\<open>update_priorities([2], [5.0])\<close> raises nothing and writes slot 2.
\<close>

theorem update_priorities_unoccupied_slot:
  "\<not> (2 < int (len one_commit)) \<and>
   update_priorities one_commit [2] [5] =
     (one_commit\<lparr>priorities := [1, 0, 5, 0], max_priority := 5\<rparr>, None)"
  by (simp add: one_commit_def len_def update_priorities_def)

theorem update_priorities_bounds_witness:
  "length (priorities one_commit) = capacity one_commit \<and>
   update_priorities one_commit [0, 7, 1] [2, 3, 4] =
     (one_commit\<lparr>priorities := [2, 0, 0, 0], max_priority := 2\<rparr>, Some IndexError) \<and>
   update_priorities one_commit [3, - 5] [2, 3] =
     (one_commit\<lparr>priorities := [1, 0, 0, 2], max_priority := 2\<rparr>, Some IndexError) \<and>
   update_priorities one_commit [3, 1, - 4] [2, 3, 4] =
     (one_commit\<lparr>priorities := [4, 3, 0, 2], max_priority := 4\<rparr>, None) \<and>
   update_priorities one_commit [- 1] [3] =
     (one_commit\<lparr>priorities := [1, 0, 0, 3], max_priority := 3\<rparr>, None)"
proof -
  have l: "length (priorities one_commit) = capacity one_commit"
    by (simp add: one_commit_def)
  have c: "capacity one_commit = 4" by (simp add: one_commit_def)
  from update_priorities_bounds [OF l, THEN conjunct2, THEN conjunct2, THEN conjunct1, of "[0, 7, 1]" "[2, 3, 4]"]
  have "update_priorities one_commit [0, 7, 1] [2, 3, 4] =
      (fold write_priority [(0, 2)] one_commit, Some IndexError)"
    by (simp add: c)
  then have 1: "update_priorities one_commit [0, 7, 1] [2, 3, 4] =
     (one_commit\<lparr>priorities := [2, 0, 0, 0], max_priority := 2\<rparr>, Some IndexError)"
    by (simp add: write_priority_def one_commit_def Let_def)
  from update_priorities_bounds [OF l, THEN conjunct2, THEN conjunct2, THEN conjunct1, of "[3, - 5]" "[2, 3]"]
  have "update_priorities one_commit [3, - 5] [2, 3] =
      (fold write_priority [(3, 2)] one_commit, Some IndexError)"
    by (simp add: c)
  then have 2: "update_priorities one_commit [3, - 5] [2, 3] =
     (one_commit\<lparr>priorities := [1, 0, 0, 2], max_priority := 2\<rparr>, Some IndexError)"
    by (simp add: write_priority_def one_commit_def Let_def)
  from update_priorities_bounds [OF l, THEN conjunct2, THEN conjunct2, THEN conjunct1, of "[3, 1, - 4]" "[2, 3, 4]"]
  have "update_priorities one_commit [3, 1, - 4] [2, 3, 4] =
      (fold write_priority [(3, 2), (1, 3), (- 4, 4)] one_commit, None)"
    by (simp add: c)
  then have 3: "update_priorities one_commit [3, 1, - 4] [2, 3, 4] =
     (one_commit\<lparr>priorities := [4, 3, 0, 2], max_priority := 4\<rparr>, None)"
    by (simp add: write_priority_def one_commit_def Let_def)
  from update_priorities_bounds [OF l, THEN conjunct2, THEN conjunct2, THEN conjunct2, of "- 1" 3]
  have 4: "update_priorities one_commit [- 1] [3] =
     (one_commit\<lparr>priorities := [1, 0, 0, 3], max_priority := 3\<rparr>, None)"
    by (simp add: c) (simp add: one_commit_def)
  from l 1 2 3 4 show ?thesis by blast
qed

subsection \<open>Auxiliary facts about \<^verbatim>\<open>sample\<close> and about \<open>beta\<close>\<close>

lemma sample_state:
  "fst (sample s choice k) = s \<or>
   fst (sample s choice k) = s\<lparr>beta := min 1 (beta s + beta_increment s)\<rparr>"
  by (simp add: sample_def Let_def split: option.splits)

lemma sample_returns:
  "length (buffer s) \<noteq> 0 \<Longrightarrow> sample s choice k = (s', Inr r) \<Longrightarrow>
   s' = s\<lparr>beta := min 1 (beta s + beta_increment s)\<rparr>"
  by (simp add: sample_def Let_def split: option.splits if_splits)

lemma sample_raises:
  "sample s choice k = (s', Inl err) \<Longrightarrow> s' = s"
  by (simp add: sample_def Let_def split: option.splits if_splits)

lemma add_beta:
  "beta (fst (add s e n g)) = beta s \<and> beta_increment (fst (add s e n g)) = beta_increment s"
  by (simp add: add_def Let_def split: prod.splits)

lemma update_loop_beta:
  "beta (fst (update_loop s ips)) = beta s \<and>
   beta_increment (fst (update_loop s ips)) = beta_increment s"
proof (induction ips arbitrary: s)
  case Nil
  show ?case by simp
next
  case (Cons ip ips)
  show ?case using Cons.IH [of "write_priority ip s"]
    by (simp add: update_loop_Cons del: update_loop.simps)
qed

lemma exec_beta:
  assumes "0 \<le> beta_increment s" and "beta s \<le> 1"
  shows "beta_increment (exec c s) = beta_increment s \<and> beta s \<le> beta (exec c s) \<and>
         beta (exec c s) \<le> 1"
proof (cases c)
  case (Add e n g)
  with assms show ?thesis by (simp add: add_beta)
next
  case (Sample choice k)
  from sample_state [of s choice k] assms Sample show ?thesis by auto
next
  case (Update_priorities indices prios)
  with assms show ?thesis by (simp add: update_priorities_def update_loop_beta)
qed

lemma run_beta:
  assumes "0 \<le> beta_increment s" and "beta s \<le> 1"
  shows "beta_increment (run calls s) = beta_increment s \<and> beta s \<le> beta (run calls s) \<and>
         beta (run calls s) \<le> 1"
  using assms
proof (induction calls arbitrary: s)
  case Nil
  then show ?case by (simp add: run_def)
next
  case (Cons c calls)
  from exec_beta [OF Cons.prems, of c]
  have e: "beta_increment (exec c s) = beta_increment s" "beta s \<le> beta (exec c s)"
    "beta (exec c s) \<le> 1" by simp_all
  from e(1) Cons.prems(1) have "0 \<le> beta_increment (exec c s)" by simp
  from Cons.IH [OF this e(3)] e show ?case
    by (simp add: run_def)
qed

lemma run_append: "run (calls @ later) s = run later (run calls s)"
  by (simp add: run_def)

subsection \<open>Annealing of \<open>beta\<close>\<close>

text \<open>
  Claim C6, as amended. Assume \<open>beta_increment \<ge> 0\<close> and \<open>beta \<le> 1\<close> (as for a buffer
  constructed with \<open>beta\<close> at most 1). Then over any sequence of calls of \<^verbatim>\<open>add\<close>,
  \<^verbatim>\<open>sample\<close> and \<^verbatim>\<open>update_priorities\<close>, whether they raise or not, \<open>beta\<close> never
  decreases and never exceeds 1; every \<^verbatim>\<open>sample\<close> call on a non-empty buffer that
  returns a batch leaves \<open>beta\<close> at \<open>min 1 (beta + beta_increment)\<close>; and a
  \<^verbatim>\<open>sample\<close> call that raises leaves the object, \<open>beta\<close> included, as it was.
\<close>

theorem beta_annealing:
  assumes "0 \<le> beta_increment s" and "beta s \<le> 1"
  shows "beta s \<le> beta (run calls s) \<and> beta (run calls s) \<le> 1 \<and>
         beta (run calls s) \<le> beta (run (calls @ later) s) \<and>
         (len s \<noteq> 0 \<and> sample s choice batch_size = (s', Inr result) \<longrightarrow>
            beta s' = min 1 (beta s + beta_increment s) \<and> beta s \<le> beta s' \<and> beta s' \<le> 1) \<and>
         (sample s choice batch_size = (s', Inl err) \<longrightarrow> s' = s \<and> beta s' = beta s)"
proof (intro conjI impI)
  from run_beta [OF assms, of calls]
  show "beta s \<le> beta (run calls s)" and "beta (run calls s) \<le> 1" by simp_all
  from run_beta [OF assms, of calls]
  have "0 \<le> beta_increment (run calls s)" and "beta (run calls s) \<le> 1"
    using assms by simp_all
  from run_beta [OF this, of later]
  show "beta (run calls s) \<le> beta (run (calls @ later) s)" by (simp add: run_append)
next
  assume h: "len s \<noteq> 0 \<and> sample s choice batch_size = (s', Inr result)"
  then have s': "s' = s\<lparr>beta := min 1 (beta s + beta_increment s)\<rparr>"
    using sample_returns [of s choice batch_size s' result] by (simp add: len_def)
  then show "beta s' = min 1 (beta s + beta_increment s)" by simp
  from s' assms show "beta s \<le> beta s'" and "beta s' \<le> 1" by simp_all
next
  assume "sample s choice batch_size = (s', Inl err)"
  then show "s' = s" by (rule sample_raises)
  then show "beta s' = beta s" by simp
qed

subsection \<open>Priorities of occupied slots\<close>

lemma add_slots_positive:
  assumes "store_ok s" and "slots_positive s"
  shows "store_ok (fst (add s e n g)) \<and> slots_positive (fst (add s e n g))"
proof -
  from add_store_ok [OF assms(1), of e n g] obtain s' where
    a: "add s e n g = (s', None)" and ok: "store_ok s'"
    and m: "max_priority s' = max_priority s"
    and c: "if int (length (deque_append 3 (n_step_buffer s) e)) = n
            then pos s' = (pos s + 1) mod capacity s \<and>
                 length (buffer s') = min (capacity s) (Suc (length (buffer s))) \<and>
                 priorities s' = (priorities s)[pos s := max_priority s]
            else buffer s' = buffer s \<and> priorities s' = priorities s \<and> pos s' = pos s"
    by blast
  have "0 < priorities s' ! i" if i: "i < length (buffer s')" for i
  proof (cases "int (length (deque_append 3 (n_step_buffer s) e)) = n")
    case False
    with c i assms(2) show ?thesis by (simp add: slots_positive_def)
  next
    case True
    with c have l: "length (buffer s') = min (capacity s) (Suc (length (buffer s)))"
      and p: "priorities s' = (priorities s)[pos s := max_priority s]" by simp_all
    from assms(1) have lp: "length (priorities s) = capacity s" and ps: "pos s < capacity s"
      and le: "length (buffer s) \<le> capacity s"
      and fr: "length (buffer s) < capacity s \<longrightarrow> pos s = length (buffer s)"
      by (simp_all add: store_ok_def)
    show ?thesis
    proof (cases "i = pos s")
      case True
      with p lp ps assms(2) show ?thesis by (simp add: slots_positive_def)
    next
      case False
      with i l le fr have "i < length (buffer s)" by (cases "length (buffer s) < capacity s") auto
      with False p assms(2) show ?thesis by (simp add: slots_positive_def)
    qed
  qed
  with a ok m assms(2) show ?thesis by (simp add: slots_positive_def)
qed

lemma write_priority_slots_positive:
  assumes "slots_positive s" and "0 < snd ip"
  shows "slots_positive (write_priority ip s)"
proof -
  obtain idx p where ip: "ip = (idx, p)" by (cases ip)
  with assms(2) have p: "0 < p" by simp
  have "0 < (priorities s)[k := p] ! i" if "i < length (buffer s)" for i k
    using that assms(1) p by (cases "k < length (priorities s)") (auto simp: slots_positive_def nth_list_update list_update_beyond not_less)
  with assms(1) p show ?thesis
    by (simp add: ip write_priority_def Let_def slots_positive_def)
qed

lemma update_loop_slots_positive:
  assumes "store_ok s" and "slots_positive s" and "\<forall>ip \<in> set ips. 0 < snd ip"
  shows "store_ok (fst (update_loop s ips)) \<and> slots_positive (fst (update_loop s ips))"
  using assms
proof (induction ips arbitrary: s)
  case Nil
  then show ?case by simp
next
  case (Cons ip ips)
  from Cons.prems have "store_ok (write_priority ip s)" "slots_positive (write_priority ip s)"
    by (simp_all add: store_ok_write_priority write_priority_slots_positive)
  from Cons.IH [OF this] Cons.prems show ?case
    by (simp add: update_loop_Cons del: update_loop.simps)
qed

lemma sample_slots_positive:
  assumes "store_ok s" and "slots_positive s"
  shows "store_ok (fst (sample s choice k)) \<and> slots_positive (fst (sample s choice k))"
  using sample_state [of s choice k] assms
  by (auto simp: store_ok_def slots_positive_def)

lemma exec_slots_positive:
  assumes "store_ok s" and "slots_positive s" and "positive_update c"
  shows "store_ok (exec c s) \<and> slots_positive (exec c s)"
proof (cases c)
  case (Add e n g)
  with assms show ?thesis by (simp add: add_slots_positive)
next
  case (Sample choice k)
  with assms show ?thesis by (simp add: sample_slots_positive)
next
  case (Update_priorities indices prios)
  with assms(3) have "\<forall>ip \<in> set (zip indices prios). 0 < snd ip" by auto
  from update_loop_slots_positive [OF assms(1,2) this] Update_priorities show ?thesis
    by (simp add: update_priorities_def)
qed

lemma run_slots_positive:
  assumes "store_ok s" and "slots_positive s" and "\<forall>c \<in> set calls. positive_update c"
  shows "store_ok (run calls s) \<and> slots_positive (run calls s)"
  using assms
proof (induction calls arbitrary: s)
  case Nil
  then show ?case by (simp add: run_def)
next
  case (Cons c calls)
  from Cons.prems have "store_ok (exec c s) \<and> slots_positive (exec c s)"
    by (intro exec_slots_positive) simp_all
  with Cons.IH [of "exec c s"] Cons.prems show ?case by (simp add: run_def)
qed

text \<open>A buffer of capacity zero never holds a transition.\<close>

lemma update_loop_frame:
  "buffer (fst (update_loop s ips)) = buffer s \<and> capacity (fst (update_loop s ips)) = capacity s"
proof (induction ips arbitrary: s)
  case Nil
  show ?case by simp
next
  case (Cons ip ips)
  show ?case using Cons.IH [of "write_priority ip s"]
    by (simp add: update_loop_Cons del: update_loop.simps)
qed

lemma exec_capacity_zero:
  assumes "capacity s = 0" and "buffer s = []"
  shows "capacity (exec c s) = 0 \<and> buffer (exec c s) = []"
proof (cases c)
  case (Add e n g)
  with assms show ?thesis by (simp add: add_def Let_def split: prod.splits)
next
  case (Sample choice k)
  with assms show ?thesis by (simp add: sample_def)
next
  case (Update_priorities indices prios)
  with assms show ?thesis by (simp add: update_priorities_def update_loop_frame)
qed

lemma run_capacity_zero:
  assumes "capacity s = 0" and "buffer s = []"
  shows "buffer (run calls s) = []"
  using assms
proof (induction calls arbitrary: s)
  case Nil
  then show ?case by (simp add: run_def)
next
  case (Cons c calls)
  from exec_capacity_zero [OF Cons.prems, of c] Cons.IH [of "exec c s"] show ?case
    by (simp add: run_def)
qed

text \<open>
  Claim C8, as amended. In every state reached from a newly constructed buffer by calls
  of \<^verbatim>\<open>add\<close>, \<^verbatim>\<open>sample\<close> and \<^verbatim>\<open>update_priorities\<close>, where every priority
  supplied to \<^verbatim>\<open>update_priorities\<close> is strictly positive, the priority of every
  occupied slot is strictly positive.
\<close>

theorem occupied_priorities_positive:
  assumes "\<forall>c \<in> set calls. positive_update c"
  shows "\<forall>i < len (run calls (PrioritizedReplayBuffer cap a b bi)).
           0 < priorities (run calls (PrioritizedReplayBuffer cap a b bi)) ! i"
proof (cases "cap = 0")
  case True
  then have "buffer (run calls (PrioritizedReplayBuffer cap a b bi)) = []"
    by (intro run_capacity_zero) (simp_all add: PrioritizedReplayBuffer_def)
  then show ?thesis by (simp add: len_def)
next
  case False
  then have "store_ok (PrioritizedReplayBuffer cap a b bi)"
    and "slots_positive (PrioritizedReplayBuffer cap a b bi)"
    by (simp_all add: store_ok_init) (simp add: slots_positive_def PrioritizedReplayBuffer_def)
  from run_slots_positive [OF this assms] show ?thesis
    by (simp add: slots_positive_def len_def)
qed



subsection \<open>Concrete runs\<close>

lemma one_commit_run:
  "run first_adds (PrioritizedReplayBuffer 4 (6/10) b (1/1000)) = one_commit\<lparr>beta := b\<rparr>"
proof -
  have "[Suc 0 ..< 2] = [Suc 0]" by (simp add: numeral_2_eq_2)
  then show ?thesis
    by (simp add: first_adds_def run_def one_commit_def init4 add_def deque_append_def
        n_step_reward_def reward_of_def Let_def)
qed

lemma sample_one_commit:
  "sample (one_commit\<lparr>beta := b\<rparr>) draw_first 1 =
     (one_commit\<lparr>beta := min 1 (b + 1/1000)\<rparr>, Inr ([Some (10, 0, 7/2, 13, True)], [0], [1]))"
  by (simp add: sample_def sample_probs_def np_power_def choice_result_def one_commit_def
      draw_first_def Let_def)

lemma sample_one_commit_empty_batch:
  "sample one_commit draw_first 0 = (one_commit, Inl (Some ValueError))"
  by (simp add: sample_def sample_probs_def np_power_def choice_result_def one_commit_def
      draw_first_def Let_def)

text \<open>
  Claim C6, as stated, fails twice. A buffer constructed with \<open>beta = 2\<close> and a
  non-negative increment has \<open>beta\<close> above 1 until the first successful \<^verbatim>\<open>sample\<close>,
  which lowers it to 1. And \<^verbatim>\<open>sample(0)\<close> on a non-empty buffer raises
  \<^verbatim>\<open>ValueError\<close> at \<^verbatim>\<open>weights.max()\<close> and leaves \<open>beta\<close> as it was.
\<close>

theorem beta_above_one_or_sample_raises:
  "0 \<le> beta_increment (PrioritizedReplayBuffer 4 (6/10) 2 (1/1000) :: (nat, nat) store) \<and>
   1 < beta (PrioritizedReplayBuffer 4 (6/10) 2 (1/1000) :: (nat, nat) store) \<and>
   beta (run first_adds (PrioritizedReplayBuffer 4 (6/10) 2 (1/1000))) = 2 \<and>
   beta (run (first_adds @ [Sample draw_first 1]) (PrioritizedReplayBuffer 4 (6/10) 2 (1/1000))) = 1 \<and>
   len one_commit \<noteq> 0 \<and>
   sample one_commit draw_first 0 = (one_commit, Inl (Some ValueError))"
proof -
  have 1: "beta (run first_adds (PrioritizedReplayBuffer 4 (6/10) 2 (1/1000))) = 2"
    unfolding one_commit_run by simp
  have "run (first_adds @ [Sample draw_first 1]) (PrioritizedReplayBuffer 4 (6/10) 2 (1/1000)) =
      fst (sample (one_commit\<lparr>beta := 2\<rparr>) draw_first 1)"
    unfolding run_append one_commit_run by (simp add: run_def)
  then have 2: "beta (run (first_adds @ [Sample draw_first 1])
      (PrioritizedReplayBuffer 4 (6/10) 2 (1/1000))) = 1"
    unfolding sample_one_commit by simp
  have 3: "sample one_commit draw_first 0 = (one_commit, Inl (Some ValueError))"
    by (simp add: sample_def sample_probs_def np_power_def choice_result_def one_commit_def
        draw_first_def Let_def)
  have 4: "len one_commit \<noteq> 0" by (simp add: len_def one_commit_def)
  have 5: "0 \<le> beta_increment (PrioritizedReplayBuffer 4 (6/10) 2 (1/1000) :: (nat, nat) store)"
    and 6: "1 < beta (PrioritizedReplayBuffer 4 (6/10) 2 (1/1000) :: (nat, nat) store)"
    by (simp_all add: PrioritizedReplayBuffer_def)
  from 1 2 3 4 5 6 show ?thesis by blast
qed

theorem beta_annealing_witness:
  "0 \<le> beta_increment one_commit \<and> beta one_commit \<le> 1 \<and>
   beta one_commit \<le> beta (run [Sample draw_first 1, Update_priorities [0] [2]] one_commit) \<and>
   beta (run [Sample draw_first 1, Update_priorities [0] [2]] one_commit) \<le> 1 \<and>
   beta (run [Sample draw_first 1, Update_priorities [0] [2]] one_commit) \<le>
     beta (run ([Sample draw_first 1, Update_priorities [0] [2]] @
                [Add (13, 1, 4, 14, False) 3 (1/2)]) one_commit) \<and>
   len one_commit \<noteq> 0 \<and>
   sample one_commit draw_first 1 =
     (one_commit\<lparr>beta := 401/1000\<rparr>, Inr ([Some (10, 0, 7/2, 13, True)], [0], [1])) \<and>
   beta (one_commit\<lparr>beta := 401/1000\<rparr>) = min 1 (beta one_commit + beta_increment one_commit) \<and>
   sample one_commit draw_first 0 = (one_commit, Inl (Some ValueError)) \<and>
   beta (fst (sample one_commit draw_first 0)) = beta one_commit"
proof -
  have i: "0 \<le> beta_increment one_commit" and b: "beta one_commit \<le> 1"
    and l: "len one_commit \<noteq> 0"
    by (simp_all add: one_commit_def len_def)
  have "one_commit\<lparr>beta := 4/10\<rparr> = one_commit" by (simp add: one_commit_def)
  with sample_one_commit [of "4/10"]
  have s: "sample one_commit draw_first 1 =
     (one_commit\<lparr>beta := 401/1000\<rparr>, Inr ([Some (10, 0, 7/2, 13, True)], [0], [1]))"
    by simp
  note r = sample_one_commit_empty_batch
  from beta_annealing [OF i b, where calls = "[Sample draw_first 1, Update_priorities [0] [2]]"
      and later = "[Add (13, 1, 4, 14, False) 3 (1/2)]" and choice = draw_first
      and batch_size = 1 and s' = "one_commit\<lparr>beta := 401/1000\<rparr>"
      and result = "([Some (10, 0, 7/2, 13, True)], [0], [1])"] i b l s
  have 1: "beta one_commit \<le> beta (run [Sample draw_first 1, Update_priorities [0] [2]] one_commit) \<and>
   beta (run [Sample draw_first 1, Update_priorities [0] [2]] one_commit) \<le> 1 \<and>
   beta (run [Sample draw_first 1, Update_priorities [0] [2]] one_commit) \<le>
     beta (run ([Sample draw_first 1, Update_priorities [0] [2]] @
                [Add (13, 1, 4, 14, False) 3 (1/2)]) one_commit) \<and>
   beta (one_commit\<lparr>beta := 401/1000\<rparr>) = min 1 (beta one_commit + beta_increment one_commit)"
    by blast
  from beta_annealing [OF i b, where choice = draw_first and batch_size = 0
      and s' = "fst (sample one_commit draw_first 0)" and err = "Some ValueError"] r
  have 2: "beta (fst (sample one_commit draw_first 0)) = beta one_commit"
    by simp
  from i b l s r 1 2 show ?thesis by blast
qed

text \<open>
  Claim C8, as stated, fails: \<^verbatim>\<open>update_priorities([0], [0.0])\<close> leaves the occupied
  slot 0 with priority 0.
\<close>

theorem zero_priority_in_occupied_slot:
  "len (run (first_adds @ [Update_priorities [0] [0]])
          (PrioritizedReplayBuffer 4 (6/10) (4/10) (1/1000))) = 1 \<and>
   \<not> 0 < priorities (run (first_adds @ [Update_priorities [0] [0]])
          (PrioritizedReplayBuffer 4 (6/10) (4/10) (1/1000))) ! 0"
proof -
  have "run (first_adds @ [Update_priorities [0] [0]]) (PrioritizedReplayBuffer 4 (6/10) (4/10) (1/1000)) =
     fst (update_priorities (one_commit\<lparr>beta := 4/10\<rparr>) [0] [0])"
    unfolding run_append one_commit_run by (simp add: run_def)
  then show ?thesis
    by (simp add: update_priorities_def one_commit_def len_def)
qed

theorem occupied_priorities_positive_witness:
  "positive_update (Update_priorities [0] [2] :: (nat, nat) call) \<and>
   len (run (first_adds @ [Update_priorities [0] [2]])
          (PrioritizedReplayBuffer 4 (6/10) (4/10) (1/1000))) = 1 \<and>
   0 < priorities (run (first_adds @ [Update_priorities [0] [2]])
          (PrioritizedReplayBuffer 4 (6/10) (4/10) (1/1000))) ! 0"
proof -
  let ?calls = "first_adds @ [Update_priorities [0] [2]]"
  let ?init = "PrioritizedReplayBuffer 4 (6/10) (4/10) (1/1000) :: (nat, nat) store"
  have "run ?calls ?init = fst (update_priorities (one_commit\<lparr>beta := 4/10\<rparr>) [0] [2])"
    unfolding run_append one_commit_run by (simp add: run_def)
  then have l: "len (run ?calls ?init) = 1"
    by (simp add: update_priorities_def one_commit_def len_def)
  have p: "\<forall>c \<in> set ?calls. positive_update c" by (simp add: first_adds_def)
  from occupied_priorities_positive [OF p, of 4 "6/10" "4/10" "1/1000"] l
  have "0 < priorities (run ?calls ?init) ! 0" by simp
  with l show ?thesis by simp
qed

subsection \<open>Importance weights\<close>





text \<open>The object \<open>two_slots\<close> is reached from a new buffer of capacity two.\<close>

lemma two_slots_run:
  "run [Add (10, 0, 1, 11, False) 3 (1/2), Add (11, 1, 2, 12, False) 3 (1/2),
        Add (12, 0, 3, 13, False) 3 (1/2), Add (13, 1, 4, 14, True) 3 (1/2),
        Update_priorities [1] [3]] (PrioritizedReplayBuffer 2 1 1 (1/1000)) = two_slots"
proof -
  have "[Suc 0 ..< 2] = [Suc 0]" by (simp add: numeral_2_eq_2)
  moreover have "replicate 2 (0::real) = [0, 0]" by (simp add: numeral_2_eq_2)
  ultimately show ?thesis
    by (simp add: run_def two_slots_def PrioritizedReplayBuffer_def add_def deque_append_def
        n_step_reward_def reward_of_def update_priorities_def Let_def)
qed





end
